theory Spec2Isabelle
  imports Main "HOL-Library.Word"
begin

unbundle bit_operations_syntax

section \<open>Identifiers, hosts and status\<close>

text \<open>
  Modelled from the spec: \<^verbatim>\<open>fc::sha1\<close>, a 160-bit digest whose declaration is not part
  of \<^verbatim>\<open>kad.cpp\<close>. The lookup uses three of its operations: \<^verbatim>\<open>operator^\<close> (bitwise
  exclusive or), equality, and the order \<^verbatim>\<open><\<close> / \<^verbatim>\<open>>\<close> that also keys
  \<^verbatim>\<open>std::map<fc::sha1, ...>\<close>. An identifier is a "fixed-length bit string (e.g., 160
  bits)" and "smaller value = closer under the natural unsigned ordering of the bit
  string": a 160-bit word with its unsigned order.
\<close>

type_synonym sha1 = "160 word"

text \<open>
  Modelled from the spec: the element type of the answers of \<^verbatim>\<open>find_nodes_near\<close> and
  \<^verbatim>\<open>remote_nodes_near\<close>, declared in \<^verbatim>\<open>tornet/node.hpp\<close>: a field \<^verbatim>\<open>id\<close> of the identifier
  type and an endpoint \<^verbatim>\<open>ep\<close> (\<open>host_id\<close> and \<open>host_ep\<close> here). The endpoint type
  \<^verbatim>\<open>fc::ip::endpoint\<close> is opaque to the search and stays a type parameter.

  What the \<^verbatim>\<open>id\<close> field holds is read off \<^verbatim>\<open>kad.cpp\<close>, which uses it as the distance of the
  node to the target. It is the key of the candidate queue (lines 30, 121, 126), and
  line 69 recovers the identifier of the queued node from that key as
  \<^verbatim>\<open>nid = key ^ m_target\<close>. It is looked up and compared as it stands among the keys of the
  result set (lines 117, 125), which are distances (line 79 stores \<^verbatim>\<open>rtn\<close> under
  \<^verbatim>\<open>m_target^rtn\<close>). So the node that a host \<open>h\<close> names has the identifier
  \<open>host_id h XOR target\<close>, and \<open>host_id h\<close> is its distance to the target.
\<close>

record 'ep host =
  host_id :: sha1
  host_ep :: "'ep"

text \<open>
  Modelled from the spec: the status enumeration is declared in \<^verbatim>\<open>tornet/kad.hpp\<close>, which
  is not part of the sources at hand. \<^verbatim>\<open>kad.cpp\<close> names \<^verbatim>\<open>idle\<close>, \<^verbatim>\<open>searching\<close> and
  \<^verbatim>\<open>done\<close>; the fourth value is the cancelled state of the description. (\<^verbatim>\<open>done\<close>
  is written \<open>done_status\<close>.)
\<close>

datatype status = idle | searching | done_status | cancelled

text \<open>Whatever a collaborator call throws; \<^verbatim>\<open>catch ( ... )\<close> does not look at it.\<close>

datatype exn = connect_error | filter_error | rpc_error | timeout_error

text \<open>
  The ways the worker could leave defined behaviour: \<^verbatim>\<open>--m.end()\<close> and \<^verbatim>\<open>m.begin()->\<close>
  on an empty \<^verbatim>\<open>std::map\<close>.
\<close>

datatype fault = decrement_end_of_empty_map | read_begin_of_empty_map

section \<open>\<^verbatim>\<open>std::map\<close> as an association list in key order\<close>

text \<open>\<^verbatim>\<open>m[k] = v\<close>: overwrite the value under an existing key, or insert in key order.\<close>

fun map_put :: "'k::linorder \<Rightarrow> 'v \<Rightarrow> ('k \<times> 'v) list \<Rightarrow> ('k \<times> 'v) list" where
  "map_put k v [] = [(k, v)]"
| "map_put k v (e # m) =
     (if fst e = k then (k, v) # m
      else if k < fst e then (k, v) # e # m
      else e # map_put k v m)"

text \<open>\<^verbatim>\<open>m.find(k)\<close>; \<open>None\<close> stands for \<^verbatim>\<open>m.end()\<close>.\<close>

definition map_find :: "'k \<Rightarrow> ('k \<times> 'v) list \<Rightarrow> 'v option" where
  "map_find k m = map_of m k"

text \<open>\<^verbatim>\<open>--m.end()\<close>: the entry with the largest key; undefined on an empty map.\<close>

definition map_back :: "('k \<times> 'v) list \<Rightarrow> ('k \<times> 'v) option" where
  "map_back m = (if m = [] then None else Some (last m))"

text \<open>The representation invariant of a \<^verbatim>\<open>std::map\<close>: keys strictly ascending.\<close>

definition key_ordered :: "('k::linorder \<times> 'v) list \<Rightarrow> bool" where
  "key_ordered m = sorted_wrt (<) (map fst m)"

section \<open>The search object\<close>

text \<open>
  Modelled from the spec: the members of \<^verbatim>\<open>kad_search\<close> are declared in
  \<^verbatim>\<open>tornet/kad.hpp\<close>; their names and uses are those of \<^verbatim>\<open>kad.cpp\<close>.
  \<^verbatim>\<open>m_current_results\<close> is the \<^verbatim>\<open>std::map<fc::sha1,fc::sha1>\<close> of line 123, from distance
  to identifier. \<^verbatim>\<open>m_search_queue\<close> maps the \<^verbatim>\<open>id\<close> field of a host to its endpoint and is
  iterated in the order of its keys. \<^verbatim>\<open>m_n\<close> and \<^verbatim>\<open>m_p\<close> are the \<^verbatim>\<open>uint32_t\<close> arguments of the
  constructor. \<^verbatim>\<open>m_pending\<close> holds one future per spawned task, here the index of the
  task. The member \<^verbatim>\<open>m_node\<close> is passed to the functions that call it.
\<close>

record 'ep kad_search =
  m_n :: "32 word"
  m_p :: "32 word"
  m_target :: sha1
  m_target_dist :: sha1
  m_cur_status :: status
  m_search_queue :: "(sha1 \<times> 'ep) list"
  m_current_results :: "(sha1 \<times> sha1) list"
  m_pending :: "nat list"

text \<open>The constructor (lines 16--20); \<open>local_id\<close> is \<^verbatim>\<open>local_node->get_id()\<close>.\<close>

definition new_kad_search :: "sha1 \<Rightarrow> sha1 \<Rightarrow> 32 word \<Rightarrow> 32 word \<Rightarrow> 'ep kad_search" where
  "new_kad_search local_id target n p =
     \<lparr>m_n = n, m_p = p, m_target = target, m_target_dist = local_id XOR target,
      m_cur_status = idle, m_search_queue = [], m_current_results = [], m_pending = []\<rparr>"

text \<open>
  \<^verbatim>\<open>kad_search::start\<close> (lines 22--39). \<open>nn\<close> is the answer of
  \<^verbatim>\<open>m_node->find_nodes_near( m_target, m_n )\<close>. Every element is stored in the queue under
  its \<^verbatim>\<open>id\<close> field. The \<^verbatim>\<open>m_p\<close> spawned tasks are recorded by their index in
  \<^verbatim>\<open>m_pending\<close>.
\<close>

definition seed_queue :: "'ep host list \<Rightarrow> (sha1 \<times> 'ep) list \<Rightarrow> (sha1 \<times> 'ep) list" where
  "seed_queue nn q = foldl (\<lambda>q h. map_put (host_id h) (host_ep h) q) q nn"

definition start :: "'ep host list \<Rightarrow> 'ep kad_search \<Rightarrow> 'ep kad_search" where
  "start nn s =
     s\<lparr>m_current_results := [],
       m_cur_status := searching,
       m_search_queue := seed_queue nn (m_search_queue s),
       m_pending := m_pending s @ [0..<unat (m_p s)]\<rparr>"

section \<open>The worker, segment by segment\<close>

text \<open>
  \<^verbatim>\<open>search_thread\<close> runs as a coroutine: it is suspended inside \<^verbatim>\<open>connect_to\<close>,
  \<^verbatim>\<open>filter\<close> and \<^verbatim>\<open>remote_nodes_near\<close>, and runs without interruption between them. Each
  stretch between two calls is a function of the shared search state as the worker
  finds it when it is resumed.
\<close>

text \<open>The loop condition (line 67).\<close>

definition loop_cond :: "'ep kad_search \<Rightarrow> bool" where
  "loop_cond s = (m_search_queue s \<noteq> [] \<and> m_cur_status s = searching)"

text \<open>
  Lines 68--70: read the first queue entry, compute \<^verbatim>\<open>nid\<close> from its key (the key
  combined with the target), erase it. \<open>None\<close> is \<^verbatim>\<open>begin()\<close> of an empty queue, which
  the loop condition excludes.
\<close>

definition take_next :: "'ep kad_search \<Rightarrow> (sha1 \<times> 'ep \<times> 'ep kad_search) option" where
  "take_next s =
     (case m_search_queue s of
        [] \<Rightarrow> None
      | e # q \<Rightarrow> Some (fst e XOR m_target s, snd e, s\<lparr>m_search_queue := q\<rparr>))"

text \<open>
  Lines 79--82: store \<^verbatim>\<open>rtn\<close> under its distance to the target; when the size exceeds
  \<^verbatim>\<open>m_n\<close>, erase the last entry (the size is then positive, so \<^verbatim>\<open>--end()\<close> exists).
\<close>

definition admit :: "sha1 \<Rightarrow> 'ep kad_search \<Rightarrow> 'ep kad_search" where
  "admit rtn s =
     (let r = map_put (m_target s XOR rtn) rtn (m_current_results s)
      in s\<lparr>m_current_results := (if unat (m_n s) < length r then butlast r else r)\<rparr>)"

text \<open>Lines 100--104: the limit handed to the remote node.\<close>

definition current_limit :: "'ep kad_search \<Rightarrow> fault + sha1 option" where
  "current_limit s =
     (if unat (m_n s) \<le> length (m_current_results s) \<and> m_n s \<noteq> 0
      then (case map_back (m_current_results s) of
              None \<Rightarrow> Inl decrement_end_of_empty_map
            | Some e \<Rightarrow> Inr (Some (fst e)))
      else Inr None)"

text \<open>The arguments of \<^verbatim>\<open>m_node->remote_nodes_near( rtn, m_target, m_n, limit )\<close> (line 113).\<close>

record query =
  q_node :: sha1
  q_target :: sha1
  q_n :: "32 word"
  q_limit :: "sha1 option"

text \<open>
  Lines 79--113, entered when \<^verbatim>\<open>filter( rtn )\<close> has returned: admit, mark the search done
  on an exact match, return when the status is done (\<open>None\<close>), otherwise prepare the
  remote query.
\<close>

definition visited :: "sha1 \<Rightarrow> 'ep kad_search \<Rightarrow> fault + ('ep kad_search \<times> query option)" where
  "visited rtn s =
     (let s1 = admit rtn s;
          s2 = (if rtn = m_target s1 then s1\<lparr>m_cur_status := done_status\<rparr> else s1)
      in if m_cur_status s2 = done_status then Inr (s2, None)
         else (case current_limit s2 of
                 Inl f \<Rightarrow> Inl f
               | Inr lim \<Rightarrow>
                   Inr (s2, Some \<lparr>q_node = rtn, q_target = m_target s2,
                                  q_n = m_n s2, q_limit = lim\<rparr>)))"

text \<open>Lines 117--129: one element of the remote answer.\<close>

definition enqueue :: "'ep host \<Rightarrow> 'ep kad_search \<Rightarrow> 'ep kad_search" where
  "enqueue h s = s\<lparr>m_search_queue := map_put (host_id h) (host_ep h) (m_search_queue s)\<rparr>"

definition offer :: "'ep host \<Rightarrow> 'ep kad_search \<Rightarrow> fault + 'ep kad_search" where
  "offer h s =
     (if map_find (host_id h) (m_current_results s) = None
      then (if length (m_current_results s) < unat (m_n s)
            then Inr (enqueue h s)
            else (case map_back (m_current_results s) of
                    None \<Rightarrow> Inl decrement_end_of_empty_map
                  | Some ritr \<Rightarrow> if fst ritr > host_id h then Inr (enqueue h s) else Inr s))
      else Inr s)"

text \<open>Lines 114--131: the loop over the remote answer.\<close>

fun merge :: "'ep host list \<Rightarrow> 'ep kad_search \<Rightarrow> fault + 'ep kad_search" where
  "merge [] s = Inr s"
| "merge (h # rr) s = (case offer h s of Inl f \<Rightarrow> Inl f | Inr s' \<Rightarrow> merge rr s')"

section \<open>The worker loop\<close>

text \<open>
  The collaborators. A call that suspends the coroutine gives back, besides its answer
  or the exception it throws, its own state \<open>'w\<close> (network, clock, the other
  coroutines) and the shared search state as the worker finds it when it is resumed:
  other workers of the same search run in between.
  \<^verbatim>\<open>filter\<close> is the hook of \<^verbatim>\<open>kad_search\<close> called at line 77 (\<open>filter_id\<close> here); its
  result is not used, it rejects by throwing.
\<close>

record ('ep, 'w) node =
  connect_to :: "'ep \<Rightarrow> 'w \<Rightarrow> 'ep kad_search \<Rightarrow> (exn + sha1) \<times> 'w \<times> 'ep kad_search"
  filter_id :: "sha1 \<Rightarrow> 'w \<Rightarrow> 'ep kad_search \<Rightarrow> (exn + unit) \<times> 'w \<times> 'ep kad_search"
  remote_nodes_near ::
    "query \<Rightarrow> 'w \<Rightarrow> 'ep kad_search \<Rightarrow> (exn + 'ep host list) \<times> 'w \<times> 'ep kad_search"

text \<open>
  \<^verbatim>\<open>kad_search::search_thread\<close> (lines 65--137). The loop need not end (a remote node
  may name the same endpoints again and again), so the number of iterations is bounded
  by a fuel argument and \<open>None\<close> means that the fuel ran out. \<open>Some (Inr (w, s))\<close> is a
  return, \<open>Some (Inl f)\<close> undefined behaviour. The handler at lines 133--135 only logs.
\<close>

fun search_thread ::
  "nat \<Rightarrow> ('ep, 'w) node \<Rightarrow> 'w \<Rightarrow> 'ep kad_search \<Rightarrow> (fault + 'w \<times> 'ep kad_search) option"
where
  "search_thread 0 nd w s = None"
| "search_thread (Suc k) nd w s =
     (if \<not> loop_cond s then Some (Inr (w, s))
      else (case take_next s of
        None \<Rightarrow> Some (Inl read_begin_of_empty_map)
      | Some (nid, ep, s1) \<Rightarrow>
          (case connect_to nd ep w s1 of
             (Inl e, w2, s2) \<Rightarrow> search_thread k nd w2 s2
           | (Inr rtn, w2, s2) \<Rightarrow>
               (case filter_id nd rtn w2 s2 of
                  (Inl e, w3, s3) \<Rightarrow> search_thread k nd w3 s3
                | (Inr u, w3, s3) \<Rightarrow>
                    (case visited rtn s3 of
                       Inl f \<Rightarrow> Some (Inl f)
                     | Inr (s4, None) \<Rightarrow> Some (Inr (w3, s4))
                     | Inr (s4, Some q) \<Rightarrow>
                         (case remote_nodes_near nd q w3 s4 of
                            (Inl e, w5, s5) \<Rightarrow> search_thread k nd w5 s5
                          | (Inr rr, w5, s5) \<Rightarrow>
                              (case merge rr s5 of
                                 Inl f \<Rightarrow> Some (Inl f)
                               | Inr s6 \<Rightarrow> search_thread k nd w5 s6)))))))"

section \<open>Waiting for the workers\<close>

text \<open>
  Time points and durations are 64-bit signed counts of microseconds: words of 64 bits,
  read with \<open>sint\<close>, whose sum wraps around. \<^verbatim>\<open>fc::microseconds::max()\<close> is the largest
  such count. The futures in \<^verbatim>\<open>m_pending\<close> belong to the task
  library: \<open>now\<close> is \<^verbatim>\<open>fc::time_point::now()\<close>, \<open>future_wait i\<close> is
  \<^verbatim>\<open>m_pending[i].wait()\<close> and \<open>future_wait_until i t\<close> is
  \<^verbatim>\<open>m_pending[i].wait_until( t )\<close>; each may throw and changes the state \<open>'w\<close> of the
  world, which holds the clock.
\<close>

type_synonym microseconds = "64 word"

type_synonym time_point = "64 word"

definition microseconds_max :: microseconds where
  "microseconds_max = 2 ^ 63 - 1"

record 'w futures =
  now :: "'w \<Rightarrow> time_point"
  future_wait :: "nat \<Rightarrow> 'w \<Rightarrow> (exn + unit) \<times> 'w"
  future_wait_until :: "nat \<Rightarrow> time_point \<Rightarrow> 'w \<Rightarrow> (exn + unit) \<times> 'w"

text \<open>
  The two \<^verbatim>\<open>for\<close> loops of \<^verbatim>\<open>kad_search::wait\<close>, from index \<open>i\<close> on. \<open>join\<close> is the call made
  on \<^verbatim>\<open>m_pending[i]\<close>. Nothing catches, so an exception ends the loop.
\<close>

function wait_loop ::
  "(nat \<Rightarrow> 'w \<Rightarrow> (exn + unit) \<times> 'w) \<Rightarrow> nat list \<Rightarrow> nat \<Rightarrow> 'w \<Rightarrow> (exn + unit) \<times> 'w"
where
  "wait_loop join pending i w =
     (if i < length pending
      then (case join (pending ! i) w of
              (Inl e, w') \<Rightarrow> (Inl e, w')
            | (Inr u, w') \<Rightarrow> wait_loop join pending (i + 1) w')
      else (Inr (), w))"
  by pat_completeness auto
termination
  by (relation "measure (\<lambda>(join, pending, i, w). length pending - i)") auto

declare wait_loop.simps [simp del]

text \<open>\<^verbatim>\<open>kad_search::wait\<close> (lines 41--54).\<close>

definition wait ::
  "'w futures \<Rightarrow> microseconds \<Rightarrow> 'w \<Rightarrow> 'ep kad_search \<Rightarrow> (exn + unit) \<times> 'w"
where
  "wait fs d w s =
     (if d = microseconds_max
      then wait_loop (future_wait fs) (m_pending s) 0 w
      else (let timeout_time = now fs w + d
            in wait_loop (\<lambda>i. future_wait_until fs i timeout_time) (m_pending s) 0 w))"

text \<open>
  The two readings of a finite deadline, written after the description of \<^verbatim>\<open>wait\<close>
  rather than after the code. \<open>wait_per_task\<close>: "applied independently per worker task
  in sequence", every join starts its own period \<open>d\<close>. \<open>wait_shared\<close>: "a single joint
  wait with one shared deadline" \<open>t\<close>.
\<close>

fun wait_per_task ::
  "'w futures \<Rightarrow> microseconds \<Rightarrow> nat list \<Rightarrow> 'w \<Rightarrow> (exn + unit) \<times> 'w"
where
  "wait_per_task fs d [] w = (Inr (), w)"
| "wait_per_task fs d (f # pending) w =
     (case future_wait_until fs f (now fs w + d) w of
        (Inl e, w') \<Rightarrow> (Inl e, w')
      | (Inr u, w') \<Rightarrow> wait_per_task fs d pending w')"

fun wait_shared ::
  "'w futures \<Rightarrow> time_point \<Rightarrow> nat list \<Rightarrow> 'w \<Rightarrow> (exn + unit) \<times> 'w"
where
  "wait_shared fs t [] w = (Inr (), w)"
| "wait_shared fs t (f # pending) w =
     (case future_wait_until fs f t w of
        (Inl e, w') \<Rightarrow> (Inl e, w')
      | (Inr u, w') \<Rightarrow> wait_shared fs t pending w')"

section \<open>Collaborators for the examples\<close>

text \<open>
  Small collaborators on which the definitions can be run. \<open>answer x\<close> returns \<open>x\<close>
  whatever it is asked, \<open>failure e\<close> throws \<open>e\<close>. A \<open>still_node\<close> leaves the shared
  state and the world alone (a search with one worker). With an \<open>overtaken_node\<close>
  every endpoint identifies itself as \<open>i\<close>, and while the worker is suspended in
  \<^verbatim>\<open>connect_to\<close> another worker marks the search done. With a \<open>cancelling_node\<close>
  every endpoint identifies itself as \<open>i\<close>, the remote query answers \<open>rr\<close>, and while
  the worker is suspended in that query the search is cancelled.
\<close>

definition answer :: "'b \<Rightarrow> 'a \<Rightarrow> exn + 'b" where
  "answer x a = Inr x"

definition failure :: "exn \<Rightarrow> 'a \<Rightarrow> exn + 'b" where
  "failure e a = Inl e"

definition still_node ::
  "('ep \<Rightarrow> exn + sha1) \<Rightarrow> (sha1 \<Rightarrow> exn + unit) \<Rightarrow> (query \<Rightarrow> exn + 'ep host list)
     \<Rightarrow> ('ep, unit) node"
where
  "still_node c f r =
     \<lparr>connect_to = (\<lambda>ep w s. (c ep, w, s)),
      filter_id = (\<lambda>i w s. (f i, w, s)),
      remote_nodes_near = (\<lambda>q w s. (r q, w, s))\<rparr>"

definition overtaken_node :: "sha1 \<Rightarrow> ('ep, unit) node" where
  "overtaken_node i =
     \<lparr>connect_to = (\<lambda>ep w s. (Inr i, w, s\<lparr>m_cur_status := done_status\<rparr>)),
      filter_id = (\<lambda>i w s. (Inr (), w, s)),
      remote_nodes_near = (\<lambda>q w s. (Inr [], w, s))\<rparr>"

definition cancelling_node :: "sha1 \<Rightarrow> 'ep host list \<Rightarrow> ('ep, unit) node" where
  "cancelling_node i rr =
     \<lparr>connect_to = (\<lambda>ep w s. (Inr i, w, s)),
      filter_id = (\<lambda>i w s. (Inr (), w, s)),
      remote_nodes_near = (\<lambda>q w s. (Inr rr, w, s\<lparr>m_cur_status := cancelled\<rparr>))\<rparr>"

text \<open>
  Futures whose tasks finish at fixed times; the world is the clock. Waiting returns
  when the task has finished; waiting until \<open>t\<close> for a task that finishes later throws
  at \<open>t\<close>. \<open>later\<close> is the later of two time points. In \<open>two_tasks\<close> the first task
  finishes at time 5 and every other one at time 12.
\<close>

definition later :: "time_point \<Rightarrow> time_point \<Rightarrow> time_point" where
  "later a b = (if sint a \<le> sint b then b else a)"

definition finishing_at :: "(nat \<Rightarrow> time_point) \<Rightarrow> time_point futures" where
  "finishing_at fin =
     \<lparr>now = (\<lambda>clock. clock),
      future_wait = (\<lambda>i clock. (Inr (), later clock (fin i))),
      future_wait_until = (\<lambda>i t clock.
        if sint (fin i) \<le> sint t then (Inr (), later clock (fin i))
        else (Inl timeout_error, later clock t))\<rparr>"

fun two_tasks :: "nat \<Rightarrow> time_point" where
  "two_tasks 0 = 5"
| "two_tasks (Suc i) = 12"

section \<open>The invariant of the result set\<close>

text \<open>
  What every state reached from \<^verbatim>\<open>start\<close> satisfies: at most \<^verbatim>\<open>m_n\<close> results, in key order,
  each stored under its distance to the target.
\<close>

definition results_inv :: "'ep kad_search \<Rightarrow> bool" where
  "results_inv s =
     (length (m_current_results s) \<le> unat (m_n s) \<and>
      key_ordered (m_current_results s) \<and>
      (\<forall>e \<in> set (m_current_results s). fst e = m_target s XOR snd e))"

section \<open>Facts about the ordered map\<close>

lemma keys_map_put: "fst ` set (map_put k v m) = insert k (fst ` set m)"
  by (induction m) auto

lemma key_ordered_map_put: "key_ordered m \<Longrightarrow> key_ordered (map_put k v m)"
  unfolding key_ordered_def
proof (induction m)
  case Nil
  then show ?case by simp
next
  case (Cons e m)
  have "\<forall>x \<in> set (map fst (map_put k v m)). fst e < x" if "fst e < k"
    using Cons.prems that keys_map_put [of k v m] by auto
  with Cons show ?case by auto
qed

lemma length_map_put_le: "length (map_put k v m) \<le> Suc (length m)"
  by (induction m) auto

lemma map_put_twice: "map_put k v (map_put k v m) = map_put k v m"
  by (induction m) auto

lemma map_put_grows:
  "length (map_put k v m) = Suc (length m) \<Longrightarrow>
     map_put k v m = m @ [(k, v)] \<or>
     (m \<noteq> [] \<and> map_put k v m = map_put k v (butlast m) @ [last m])"
  by (induction m) (auto split: if_splits)

lemma admit_results_twice:
  assumes "length m \<le> n"
  defines "cap \<equiv> \<lambda>r. if n < length r then butlast r else r"
  shows "cap (map_put k v (cap (map_put k v m))) = cap (map_put k v m)"
proof (cases "n < length (map_put k v m)")
  case False
  then show ?thesis by (simp add: cap_def map_put_twice)
next
  case True
  with assms(1) length_map_put_le [of k v m] have len: "length (map_put k v m) = Suc (length m)" "length m = n"
    by auto
  from map_put_grows [OF len(1)] show ?thesis
  proof
    assume "map_put k v m = m @ [(k, v)]"
    then show ?thesis using True by (simp add: cap_def)
  next
    assume a: "m \<noteq> [] \<and> map_put k v m = map_put k v (butlast m) @ [last m]"
    then have "length (map_put k v (butlast m)) = n" using len by simp
    with a True show ?thesis by (simp add: cap_def map_put_twice)
  qed
qed

lemma key_ordered_butlast: "key_ordered m \<Longrightarrow> key_ordered (butlast m)"
  unfolding key_ordered_def
  by (metis append_butlast_last_id butlast.simps(1) map_butlast sorted_wrt_append)

lemma key_ordered_last_max:
  "key_ordered m \<Longrightarrow> e \<in> set m \<Longrightarrow> fst e \<le> fst (last m)"
  unfolding key_ordered_def
  by (induction m) (auto simp: less_imp_le)

lemma map_put_entries:
  "P (k, v) \<Longrightarrow> \<forall>e \<in> set m. P e \<Longrightarrow> \<forall>e \<in> set (map_put k v m). P e"
  by (induction m) auto

section \<open>Admission into the result set\<close>

lemma admit_fields [simp]:
  "m_n (admit i s) = m_n s" "m_target (admit i s) = m_target s"
  "m_search_queue (admit i s) = m_search_queue s" "m_cur_status (admit i s) = m_cur_status s"
  by (simp_all add: admit_def Let_def)

lemma results_inv_start: "results_inv (start nn s)"
  by (simp add: results_inv_def start_def key_ordered_def)

lemma results_inv_admit:
  assumes "results_inv s"
  shows "results_inv (admit i s)"
proof -
  let ?r = "map_put (m_target s XOR i) i (m_current_results s)"
  from assms have len: "length ?r \<le> Suc (unat (m_n s))"
    using length_map_put_le [of "m_target s XOR i" i "m_current_results s"]
    by (simp add: results_inv_def)
  from assms have ord: "key_ordered ?r"
    by (simp add: results_inv_def key_ordered_map_put)
  from assms have dist: "\<forall>e \<in> set ?r. fst e = m_target s XOR snd e"
    by (intro map_put_entries) (simp_all add: results_inv_def)
  show ?thesis
  proof (cases "unat (m_n s) < length ?r")
    case True
    then have "m_current_results (admit i s) = butlast ?r"
      by (simp add: admit_def Let_def)
    with len ord dist show ?thesis
      by (auto simp: results_inv_def key_ordered_butlast dest: in_set_butlastD)
  next
    case False
    then have "m_current_results (admit i s) = ?r"
      by (simp add: admit_def Let_def)
    with False ord dist show ?thesis
      by (simp add: results_inv_def)
  qed
qed

lemma results_inv_admits: "results_inv s \<Longrightarrow> results_inv (foldl (\<lambda>s i. admit i s) s ids)"
  by (induction ids arbitrary: s) (simp_all add: results_inv_admit)

lemma admits_fields [simp]:
  "m_n (foldl (\<lambda>s i. admit i s) s ids) = m_n s"
  "m_target (foldl (\<lambda>s i. admit i s) s ids) = m_target s"
  by (induction ids arbitrary: s) simp_all

lemma start_fields [simp]: "m_n (start nn s) = m_n s" "m_target (start nn s) = m_target s"
  by (simp_all add: start_def)

lemma results_inv_by_distance:
  assumes "results_inv s"
  shows "sorted_wrt (\<lambda>a b. m_target s XOR snd a < m_target s XOR snd b) (m_current_results s)"
proof -
  from assms have "sorted_wrt (\<lambda>a b. fst a < fst b) (m_current_results s)"
    by (simp add: results_inv_def key_ordered_def sorted_wrt_map)
  moreover from assms have "\<forall>e \<in> set (m_current_results s). fst e = m_target s XOR snd e"
    by (simp add: results_inv_def)
  ultimately show ?thesis
    by (elim sorted_wrt_mono_rel [rotated]) simp
qed

lemma key_ordered_distinct: "key_ordered m \<Longrightarrow> distinct m"
  unfolding key_ordered_def
  by (induction m) auto

lemma evict_worst:
  assumes "key_ordered r" "r \<noteq> []"
  shows "last r \<in> set r \<and> (\<forall>e \<in> set r. fst e \<le> fst (last r)) \<and>
         set (butlast r) = set r - {last r} \<and> Suc (length (butlast r)) = length r"
proof -
  from assms(2) have r: "r = butlast r @ [last r]" by simp
  from assms(1) have "distinct r" by (rule key_ordered_distinct)
  with r have "last r \<notin> set (butlast r)"
    by (metis distinct_append disjoint_iff list.set_intros(1))
  with r have "set (butlast r) = set r - {last r}"
    by (metis Diff_insert_absorb Un_insert_right append_Nil2 list.simps(15) set_append)
  with assms show ?thesis
    by (auto simp: key_ordered_last_max)
qed

text \<open>
  C3. After \<^verbatim>\<open>start\<close> and any sequence of admitted identifiers, every further admit leaves
  a result set of at most \<^verbatim>\<open>m_n\<close> entries, in ascending order of distance to the target;
  and when storing the identifier makes the size exceed \<^verbatim>\<open>m_n\<close>, exactly one entry is
  removed, one whose distance is the largest.
\<close>

theorem result_set_bounded_and_ordered:
  fixes init :: "'ep kad_search"
  shows
  "length (m_current_results (admit i (foldl (\<lambda>s i. admit i s) (start nn init) ids)))
     \<le> unat (m_n init) \<and>
   sorted_wrt (\<lambda>a b. m_target init XOR snd a < m_target init XOR snd b)
     (m_current_results (admit i (foldl (\<lambda>s i. admit i s) (start nn init) ids))) \<and>
   (unat (m_n init) <
      length (map_put (m_target init XOR i) i
                (m_current_results (foldl (\<lambda>s i. admit i s) (start nn init) ids))) \<longrightarrow>
    (\<exists>w \<in> set (map_put (m_target init XOR i) i
                (m_current_results (foldl (\<lambda>s i. admit i s) (start nn init) ids))).
       (\<forall>e \<in> set (map_put (m_target init XOR i) i
                (m_current_results (foldl (\<lambda>s i. admit i s) (start nn init) ids))).
          m_target init XOR snd e \<le> m_target init XOR snd w) \<and>
       set (m_current_results (admit i (foldl (\<lambda>s i. admit i s) (start nn init) ids))) =
         set (map_put (m_target init XOR i) i
                (m_current_results (foldl (\<lambda>s i. admit i s) (start nn init) ids))) - {w} \<and>
       Suc (length (m_current_results (admit i (foldl (\<lambda>s i. admit i s) (start nn init) ids)))) =
         length (map_put (m_target init XOR i) i
                (m_current_results (foldl (\<lambda>s i. admit i s) (start nn init) ids)))))"
proof -
  define s where "s = foldl (\<lambda>s i. admit i s) (start nn init) ids"
  define r where "r = map_put (m_target init XOR i) i (m_current_results s)"
  have inv: "results_inv s"
    unfolding s_def by (rule results_inv_admits [OF results_inv_start])
  have n: "m_n s = m_n init" and t: "m_target s = m_target init"
    by (simp_all add: s_def)
  from inv have inv': "results_inv (admit i s)" by (rule results_inv_admit)
  have len: "length (m_current_results (admit i s)) \<le> unat (m_n init)"
    using inv' n by (simp add: results_inv_def)
  have ord: "sorted_wrt (\<lambda>a b. m_target init XOR snd a < m_target init XOR snd b)
               (m_current_results (admit i s))"
    using results_inv_by_distance [OF inv'] t by simp
  have ev: "\<exists>w \<in> set r. (\<forall>e \<in> set r. m_target init XOR snd e \<le> m_target init XOR snd w) \<and>
        set (m_current_results (admit i s)) = set r - {w} \<and>
        Suc (length (m_current_results (admit i s))) = length r"
    if big: "unat (m_n init) < length r"
  proof -
    from inv have ko: "key_ordered r"
      by (simp add: r_def results_inv_def key_ordered_map_put)
    from big have ne: "r \<noteq> []" by auto
    from inv t have dist: "\<forall>e \<in> set r. fst e = m_target init XOR snd e"
      unfolding r_def by (intro map_put_entries) (simp_all add: results_inv_def)
    from big have adm: "m_current_results (admit i s) = butlast r"
      by (simp add: admit_def Let_def r_def n t)
    from evict_worst [OF ko ne] dist adm show ?thesis
      by (intro bexI [of _ "last r"]) auto
  qed
  from len ord ev show ?thesis
    unfolding s_def r_def by blast
qed


theorem result_set_bounded_and_ordered_witness:
  "unat (m_n (new_kad_search 0 8 1 1 :: nat kad_search)) <
     length (map_put (m_target (new_kad_search 0 8 1 1 :: nat kad_search) XOR 10) 10
       (m_current_results
          (foldl (\<lambda>s i. admit i s) (start [] (new_kad_search 0 8 1 1 :: nat kad_search)) [9]))) \<and>
   m_current_results
     (admit 10 (foldl (\<lambda>s i. admit i s) (start [] (new_kad_search 0 8 1 1 :: nat kad_search)) [9]))
     = [(1, 9)]"
  using result_set_bounded_and_ordered
    [where i = 10 and nn = "[]" and init = "new_kad_search 0 8 1 1 :: nat kad_search"
       and ids = "[9]"]
  by (simp add: new_kad_search_def start_def seed_queue_def admit_def)

section \<open>The candidate queue\<close>

lemma enqueue_fields [simp]:
  "m_n (enqueue h s) = m_n s" "m_target (enqueue h s) = m_target s"
  "m_current_results (enqueue h s) = m_current_results s"
  "m_cur_status (enqueue h s) = m_cur_status s"
  by (simp_all add: enqueue_def)

lemma enqueue_twice: "enqueue h (enqueue h s) = enqueue h s"
  by (simp add: enqueue_def map_put_twice)

lemma offer_result: "offer h s = Inr s' \<Longrightarrow> s' = s \<or> s' = enqueue h s"
  by (auto simp: offer_def split: if_splits option.splits)

lemma offer_enqueue:
  "offer h s = Inr (enqueue h s) \<Longrightarrow> offer h (enqueue h s) = Inr (enqueue h s)"
  by (auto simp: offer_def enqueue_twice split: if_splits option.splits)

lemma offer_same: "offer h s = Inr s1 \<Longrightarrow> offer h s1 = Inr s1"
  using offer_result [of h s s1] offer_enqueue [of h s] by auto

lemma admit_twice:
  assumes "length (m_current_results s) \<le> unat (m_n s)"
  shows "admit i (admit i s) = admit i s"
  using admit_results_twice [OF assms, of "m_target s XOR i" i]
  by (simp add: admit_def Let_def)

text \<open>
  C8. Offering the same element of a remote answer twice in succession leaves the
  state as one offer does, and admitting the same identifier twice in succession leaves
  the state as one admit does: on every result set within its bound \<^verbatim>\<open>m_n\<close>, and so
  after \<^verbatim>\<open>start\<close> and any sequence of admits.
\<close>

theorem offer_and_admit_idempotent:
  "(offer h s = Inr s1 \<longrightarrow> offer h s1 = Inr s1) \<and>
   (length (m_current_results s) \<le> unat (m_n s) \<longrightarrow> admit i (admit i s) = admit i s) \<and>
   admit i (admit i (foldl (\<lambda>s i. admit i s) (start nn init) ids)) =
     admit i (foldl (\<lambda>s i. admit i s) (start nn init) ids)"
proof -
  have "results_inv (foldl (\<lambda>s i. admit i s) (start nn init) ids)"
    by (rule results_inv_admits [OF results_inv_start])
  then have "length (m_current_results (foldl (\<lambda>s i. admit i s) (start nn init) ids))
      \<le> unat (m_n (foldl (\<lambda>s i. admit i s) (start nn init) ids))"
    by (simp add: results_inv_def)
  then show ?thesis
    by (simp add: offer_same admit_twice)
qed

theorem offer_and_admit_idempotent_witness:
  "offer \<lparr>host_id = 2, host_ep = 7 :: nat\<rparr>
     (admit 6 (start [] (new_kad_search 0 1 1 1)))
     = Inr ((admit 6 (start [] (new_kad_search 0 1 1 1)))\<lparr>m_search_queue := [(2, 7)]\<rparr>) \<and>
   offer \<lparr>host_id = 2, host_ep = 7 :: nat\<rparr>
     ((admit 6 (start [] (new_kad_search 0 1 1 1)))\<lparr>m_search_queue := [(2, 7)]\<rparr>)
     = Inr ((admit 6 (start [] (new_kad_search 0 1 1 1)))\<lparr>m_search_queue := [(2, 7)]\<rparr>) \<and>
   length (m_current_results (admit 6 (start [] (new_kad_search 0 1 1 1) :: nat kad_search)))
     \<le> unat (m_n (admit 6 (start [] (new_kad_search 0 1 1 1) :: nat kad_search))) \<and>
   admit 4 (admit 4 (admit 6 (start [] (new_kad_search 0 1 1 1) :: nat kad_search)))
     = admit 4 (admit 6 (start [] (new_kad_search 0 1 1 1)))"
  using offer_and_admit_idempotent
    [where h = "\<lparr>host_id = 2, host_ep = 7 :: nat\<rparr>"
       and s = "admit 6 (start [] (new_kad_search 0 1 1 1))"
       and ?s1.0 = "(admit 6 (start [] (new_kad_search 0 1 1 1)))\<lparr>m_search_queue := [(2, 7)]\<rparr>"
       and i = 4 and nn = "[]" and init = "new_kad_search 0 1 1 1" and ids = "[6]"]
  by (simp add: new_kad_search_def start_def seed_queue_def admit_def offer_def enqueue_def
      map_find_def map_back_def)


section \<open>Finding the target\<close>

lemma map_put_zero:
  "map_put (0 :: 'a::len word) v m =
     (0, v) # (case m of [] \<Rightarrow> [] | e # m' \<Rightarrow> if fst e = 0 then m' else m)"
  by (cases m) (auto simp: word_gt_0)

lemma admit_target:
  assumes "m_n s \<noteq> 0"
  shows "map_find 0 (m_current_results (admit (m_target s) s)) = Some (m_target s)"
proof -
  let ?r = "map_put 0 (m_target s) (m_current_results s)"
  obtain m where r: "?r = (0, m_target s) # m"
    using map_put_zero [of "m_target s" "m_current_results s"] by simp
  from assms have "0 < unat (m_n s)" by (simp add: unat_gt_0)
  then have "map_of (if unat (m_n s) < length ?r then butlast ?r else ?r) 0 = Some (m_target s)"
    unfolding r by (cases m) auto
  then show ?thesis
    by (simp add: admit_def Let_def map_find_def)
qed

lemma visited_target:
  "\<exists>s'. visited (m_target s) s = Inr (s', None) \<and> m_cur_status s' = done_status \<and>
        m_target s' = m_target s \<and>
        m_current_results s' = m_current_results (admit (m_target s) s)"
  by (simp add: visited_def Let_def)

text \<open>
  C4, amended. When the endpoint of the visited candidate identifies itself as the
  target and \<^verbatim>\<open>filter\<close> returns without throwing, the worker returns with the status
  done, whatever \<^verbatim>\<open>m_n\<close> is; and when \<^verbatim>\<open>m_n\<close> is at least 1 the target is stored in the
  result set under distance 0.
\<close>

theorem target_visit_ends_search:
  assumes "loop_cond s"
    and "take_next s = Some (nid, ep, s1)"
    and "connect_to nd ep w s1 = (Inr (m_target s3), w2, s2)"
    and "filter_id nd (m_target s3) w2 s2 = (Inr u, w3, s3)"
  shows "\<exists>s4. search_thread (Suc k) nd w s = Some (Inr (w3, s4)) \<and>
              m_cur_status s4 = done_status \<and>
              (m_n s3 \<noteq> 0 \<longrightarrow> map_find 0 (m_current_results s4) = Some (m_target s3))"
proof -
  obtain s4 where v: "visited (m_target s3) s3 = Inr (s4, None)"
    and st: "m_cur_status s4 = done_status"
    and rs: "m_current_results s4 = m_current_results (admit (m_target s3) s3)"
    using visited_target [of s3] by blast
  from assms(1-4) v have "search_thread (Suc k) nd w s = Some (Inr (w3, s4))"
    by simp
  moreover from rs have "map_find 0 (m_current_results s4) = Some (m_target s3)"
    if "m_n s3 \<noteq> 0"
    using that by (simp add: admit_target)
  ultimately show ?thesis using st by blast
qed


theorem target_visit_ends_search_witness:
  "loop_cond (start [\<lparr>host_id = 3, host_ep = 0 :: nat\<rparr>] (new_kad_search 0 8 1 1)) \<and>
   take_next (start [\<lparr>host_id = 3, host_ep = 0 :: nat\<rparr>] (new_kad_search 0 8 1 1))
     = Some (11, 0, start [] (new_kad_search 0 8 1 1)) \<and>
   m_n (start [] (new_kad_search 0 8 1 1) :: nat kad_search) \<noteq> 0 \<and>
   search_thread (Suc 0) (still_node (answer 8) (answer ()) (answer [])) ()
       (start [\<lparr>host_id = 3, host_ep = 0 :: nat\<rparr>] (new_kad_search 0 8 1 1))
     = Some (Inr ((), \<lparr>m_n = 1, m_p = 1, m_target = 8, m_target_dist = 8,
                        m_cur_status = done_status, m_search_queue = [],
                        m_current_results = [(0, 8)], m_pending = [0]\<rparr>))"
  using target_visit_ends_search
    [where s = "start [\<lparr>host_id = 3, host_ep = 0 :: nat\<rparr>] (new_kad_search 0 8 1 1)"
       and nid = 11 and ep = 0 and ?s1.0 = "start [] (new_kad_search 0 8 1 1)"
       and nd = "still_node (answer 8) (answer ()) (answer [])" and w = "()"
       and ?s3.0 = "start [] (new_kad_search 0 8 1 1)" and ?w2.0 = "()"
       and ?s2.0 = "start [] (new_kad_search 0 8 1 1)" and u = "()" and ?w3.0 = "()"
       and k = 0]
  by (simp add: new_kad_search_def start_def seed_queue_def loop_cond_def take_next_def
      still_node_def answer_def visited_def admit_def)

text \<open>
  C4 as stated fails. With \<^verbatim>\<open>m_n = 0\<close> the visited candidate resolves to the target 8
  and the status becomes done, but the entry is erased at once by the size bound and the
  result set is empty. With \<^verbatim>\<open>m_n = 1\<close> and a filter that throws, the candidate resolving
  to the target is dropped: the worker ends with the status still searching and an empty
  result set.
\<close>

theorem target_visit_counterexample:
  "search_thread (Suc 0) (still_node (answer 8) (answer ()) (answer [])) ()
       (start [\<lparr>host_id = 3, host_ep = 0 :: nat\<rparr>] (new_kad_search 0 8 0 1))
     = Some (Inr ((), \<lparr>m_n = 0, m_p = 1, m_target = 8, m_target_dist = 8,
                        m_cur_status = done_status, m_search_queue = [],
                        m_current_results = [], m_pending = [0]\<rparr>)) \<and>
   search_thread (Suc (Suc 0)) (still_node (answer 8) (failure filter_error) (answer [])) ()
       (start [\<lparr>host_id = 3, host_ep = 0 :: nat\<rparr>] (new_kad_search 0 8 1 1))
     = Some (Inr ((), \<lparr>m_n = 1, m_p = 1, m_target = 8, m_target_dist = 8,
                        m_cur_status = searching, m_search_queue = [],
                        m_current_results = [], m_pending = [0]\<rparr>))"
  by (simp add: new_kad_search_def start_def seed_queue_def loop_cond_def take_next_def
      still_node_def answer_def failure_def visited_def admit_def)


section \<open>Failures of the collaborators\<close>

lemma visited_results:
  "visited rtn s = Inr (s', q) \<Longrightarrow> m_current_results s' = m_current_results (admit rtn s)"
  by (auto simp: visited_def Let_def split: if_splits sum.splits)

text \<open>
  C5. In an iteration that has taken a candidate, a throwing \<^verbatim>\<open>connect_to\<close> and a
  throwing \<^verbatim>\<open>remote_nodes_near\<close> are caught inside the iteration: the worker goes on with
  the rest of its loop from the very state the call gave back, and in the second case
  the result set is the one the admit of this candidate produced.
\<close>

theorem candidate_failures_are_contained:
  assumes "loop_cond s" and "take_next s = Some (nid, ep, s1)"
  shows
    "(connect_to nd ep w s1 = (Inl e, w2, s2) \<longrightarrow>
        search_thread (Suc k) nd w s = search_thread k nd w2 s2) \<and>
     (connect_to nd ep w s1 = (Inr rtn, w2, s2) \<and>
      filter_id nd rtn w2 s2 = (Inr u, w3, s3) \<and>
      visited rtn s3 = Inr (s4, Some q) \<and>
      remote_nodes_near nd q w3 s4 = (Inl e, w5, s5) \<longrightarrow>
        search_thread (Suc k) nd w s = search_thread k nd w5 s5 \<and>
        m_current_results s4 = m_current_results (admit rtn s3))"
  using assms by (auto simp: visited_results)

theorem candidate_failures_are_contained_witness:
  "loop_cond (start [\<lparr>host_id = 3, host_ep = 0 :: nat\<rparr>] (new_kad_search 0 8 2 1)) \<and>
   take_next (start [\<lparr>host_id = 3, host_ep = 0 :: nat\<rparr>] (new_kad_search 0 8 2 1))
     = Some (11, 0, start [] (new_kad_search 0 8 2 1)) \<and>
   search_thread (Suc (Suc 0)) (still_node (failure connect_error) (answer ()) (answer [])) ()
       (start [\<lparr>host_id = 3, host_ep = 0 :: nat\<rparr>] (new_kad_search 0 8 2 1))
     = search_thread (Suc 0) (still_node (failure connect_error) (answer ()) (answer [])) ()
         (start [] (new_kad_search 0 8 2 1)) \<and>
   search_thread (Suc (Suc 0)) (still_node (answer 9) (answer ()) (failure rpc_error)) ()
       (start [\<lparr>host_id = 3, host_ep = 0 :: nat\<rparr>] (new_kad_search 0 8 2 1))
     = search_thread (Suc 0) (still_node (answer 9) (answer ()) (failure rpc_error)) ()
         (admit 9 (start [] (new_kad_search 0 8 2 1))) \<and>
   search_thread (Suc 0) (still_node (answer 9) (answer ()) (failure rpc_error)) ()
       (admit 9 (start [] (new_kad_search 0 8 2 1)) :: nat kad_search)
     = Some (Inr ((), \<lparr>m_n = 2, m_p = 1, m_target = 8, m_target_dist = 8,
                        m_cur_status = searching, m_search_queue = [],
                        m_current_results = [(1, 9)], m_pending = [0]\<rparr>))"
  using candidate_failures_are_contained
    [where s = "start [\<lparr>host_id = 3, host_ep = 0 :: nat\<rparr>] (new_kad_search 0 8 2 1)"
       and nid = 11 and ep = 0 and ?s1.0 = "start [] (new_kad_search 0 8 2 1)"
       and nd = "still_node (failure connect_error) (answer ()) (answer [])" and w = "()"
       and e = connect_error and ?w2.0 = "()" and ?s2.0 = "start [] (new_kad_search 0 8 2 1)"
       and k = "Suc 0"]
    candidate_failures_are_contained
    [where s = "start [\<lparr>host_id = 3, host_ep = 0 :: nat\<rparr>] (new_kad_search 0 8 2 1)"
       and nid = 11 and ep = 0 and ?s1.0 = "start [] (new_kad_search 0 8 2 1)"
       and nd = "still_node (answer 9) (answer ()) (failure rpc_error)" and w = "()"
       and rtn = 9 and ?w2.0 = "()" and ?s2.0 = "start [] (new_kad_search 0 8 2 1)"
       and u = "()" and ?w3.0 = "()" and ?s3.0 = "start [] (new_kad_search 0 8 2 1)"
       and ?s4.0 = "admit 9 (start [] (new_kad_search 0 8 2 1))"
       and q = "\<lparr>q_node = 9, q_target = 8, q_n = 2, q_limit = None\<rparr>"
       and e = rpc_error and ?w5.0 = "()" and ?s5.0 = "admit 9 (start [] (new_kad_search 0 8 2 1))"
       and k = "Suc 0"]
  by (simp add: new_kad_search_def start_def seed_queue_def loop_cond_def take_next_def
      still_node_def answer_def failure_def visited_def admit_def current_limit_def)


section \<open>Decrementing the end of the result set\<close>

lemma offer_fields:
  "offer h s = Inr s' \<Longrightarrow>
     m_n s' = m_n s \<and> m_current_results s' = m_current_results s"
  using offer_result [of h s s'] by auto

lemma offer_defined: "m_n s \<noteq> 0 \<Longrightarrow> offer h s \<noteq> Inl f"
  by (auto simp: offer_def map_back_def unat_eq_0 split: if_splits)

lemma merge_defined: "m_n s \<noteq> 0 \<Longrightarrow> merge rr s \<noteq> Inl f"
proof (induction rr arbitrary: s)
  case Nil
  then show ?case by simp
next
  case (Cons h rr)
  show ?case
  proof (cases "offer h s")
    case (Inl f')
    with Cons.prems offer_defined [of s h f'] show ?thesis by simp
  next
    case (Inr s')
    with Cons.prems offer_fields [of h s s'] have "m_n s' \<noteq> 0" by simp
    with Cons.IH [of s'] Inr show ?thesis by simp
  qed
qed

lemma current_limit_defined: "current_limit s \<noteq> Inl f"
  by (auto simp: current_limit_def map_back_def unat_eq_0 split: if_splits)

lemma visited_defined: "visited rtn s \<noteq> Inl f"
  by (auto simp: visited_def Let_def current_limit_defined split: sum.splits)

text \<open>
  C10. With \<^verbatim>\<open>m_n\<close> at least 1 neither the computation of the query limit nor the
  merge of a remote answer decrements the end of an empty result set. With \<^verbatim>\<open>m_n = 0\<close>
  the result set, being within its bound, is empty; the limit is then not computed from
  it, and the merge of any non-empty answer reaches the decrement on the empty set.
\<close>

theorem end_decrement_defined:
  "(m_n s \<noteq> 0 \<longrightarrow>
      current_limit s \<noteq> Inl f \<and> visited rtn s \<noteq> Inl f \<and>
      offer h s \<noteq> Inl f \<and> merge rr s \<noteq> Inl f) \<and>
   (m_n s = 0 \<and> length (m_current_results s) \<le> unat (m_n s) \<longrightarrow>
      m_current_results s = [] \<and> current_limit s = Inr None \<and>
      offer h s = Inl decrement_end_of_empty_map \<and>
      merge (h # rr) s = Inl decrement_end_of_empty_map)"
proof -
  have "current_limit s = Inr None \<and> offer h s = Inl decrement_end_of_empty_map \<and>
        merge (h # rr) s = Inl decrement_end_of_empty_map"
    if "m_n s = 0" "m_current_results s = []"
    using that by (simp add: current_limit_def offer_def map_find_def map_back_def)
  then show ?thesis
    by (auto simp: current_limit_defined visited_defined offer_defined merge_defined)
qed

theorem end_decrement_defined_witness:
  "m_n (admit 9 (start [] (new_kad_search 0 8 1 1)) :: nat kad_search) \<noteq> 0 \<and>
   current_limit (admit 9 (start [] (new_kad_search 0 8 1 1)) :: nat kad_search) = Inr (Some 1) \<and>
   merge [\<lparr>host_id = 0, host_ep = 7 :: nat\<rparr>] (admit 9 (start [] (new_kad_search 0 8 1 1)))
     \<noteq> Inl decrement_end_of_empty_map \<and>
   m_n (admit 9 (start [] (new_kad_search 0 8 0 1)) :: nat kad_search) = 0 \<and>
   length (m_current_results (admit 9 (start [] (new_kad_search 0 8 0 1)) :: nat kad_search))
     \<le> unat (m_n (admit 9 (start [] (new_kad_search 0 8 0 1)) :: nat kad_search)) \<and>
   merge [\<lparr>host_id = 0, host_ep = 7 :: nat\<rparr>] (admit 9 (start [] (new_kad_search 0 8 0 1)))
     = Inl decrement_end_of_empty_map"
  using end_decrement_defined
    [where s = "admit 9 (start [] (new_kad_search 0 8 1 1)) :: nat kad_search"
       and f = decrement_end_of_empty_map and rtn = 9
       and h = "\<lparr>host_id = 0, host_ep = 7 :: nat\<rparr>" and rr = "[]"]
    end_decrement_defined
    [where s = "admit 9 (start [] (new_kad_search 0 8 0 1)) :: nat kad_search"
       and f = decrement_end_of_empty_map and rtn = 9
       and h = "\<lparr>host_id = 0, host_ep = 7 :: nat\<rparr>" and rr = "[]"]
  by (simp add: new_kad_search_def start_def seed_queue_def admit_def current_limit_def
      map_back_def map_find_def offer_def enqueue_def)

section \<open>The remote query\<close>






section \<open>Where the worker reads the status\<close>

lemma offer_ignores_status:
  "offer h (s\<lparr>m_cur_status := st\<rparr>) =
     (case offer h s of Inl f \<Rightarrow> Inl f | Inr s' \<Rightarrow> Inr (s'\<lparr>m_cur_status := st\<rparr>))"
  by (simp add: offer_def enqueue_def split: option.splits)

lemma merge_ignores_status:
  "merge rr (s\<lparr>m_cur_status := st\<rparr>) =
     (case merge rr s of Inl f \<Rightarrow> Inl f | Inr s' \<Rightarrow> Inr (s'\<lparr>m_cur_status := st\<rparr>))"
proof (induction rr arbitrary: s)
  case Nil
  show ?case by simp
next
  case (Cons h rr)
  show ?case
    by (cases "offer h s") (simp_all add: offer_ignores_status Cons.IH)
qed

lemma visited_when_done:
  "m_cur_status s = done_status \<Longrightarrow> visited rtn s = Inr (admit rtn s, None)"
  by (simp add: visited_def Let_def admit_def)

lemma returns_when_done_after_admit:
  assumes "loop_cond s" and "take_next s = Some (nid, ep, s1)"
    and "connect_to nd ep w s1 = (Inr rtn, w2, s2)"
    and "filter_id nd rtn w2 s2 = (Inr u, w3, s3)"
    and "m_cur_status s3 = done_status"
  shows "search_thread (Suc k) nd w s = Some (Inr (w3, admit rtn s3))"
  using assms by (simp add: visited_when_done)

lemma merges_whatever_status:
  assumes "loop_cond s" and "take_next s = Some (nid, ep, s1)"
    and "connect_to nd ep w s1 = (Inr rtn, w2, s2)"
    and "filter_id nd rtn w2 s2 = (Inr u, w3, s3)"
    and "visited rtn s3 = Inr (s4, Some q)"
    and "remote_nodes_near nd q w3 s4 = (Inr rr, w5, s5)"
  shows "search_thread (Suc k) nd w s =
           (case merge rr s5 of Inl f \<Rightarrow> Some (Inl f) | Inr s6 \<Rightarrow> search_thread k nd w5 s6)"
  using assms by simp

lemma returns_at_loop_head:
  "m_cur_status s \<noteq> searching \<Longrightarrow> search_thread (Suc k) nd w s = Some (Inr (w, s))"
  by (simp add: loop_cond_def)

text \<open>
  C9, amended. The worker reads the status at the loop head and once after the admit.
  A worker that finds the status other than searching at the loop head returns and
  leaves the state as it is. A worker that is resumed from \<^verbatim>\<open>filter\<close> with the status
  done admits the identifier and returns, without a remote query and without touching
  the queue. A worker that is resumed from the remote query merges the answer into the
  queue whatever the status has become, and reads the status next at the loop head.
\<close>

theorem status_is_read_at_loop_head_and_after_admit:
  "(m_cur_status s \<noteq> searching \<longrightarrow> search_thread (Suc k) nd w s = Some (Inr (w, s))) \<and>
   (loop_cond s \<and> take_next s = Some (nid, ep, s1) \<and>
    connect_to nd ep w s1 = (Inr rtn, w2, s2) \<and>
    filter_id nd rtn w2 s2 = (Inr u, w3, s3) \<longrightarrow>
      (m_cur_status s3 = done_status \<longrightarrow>
         search_thread (Suc k) nd w s = Some (Inr (w3, admit rtn s3)) \<and>
         m_search_queue (admit rtn s3) = m_search_queue s3) \<and>
      (visited rtn s3 = Inr (s4, Some q) \<and>
       remote_nodes_near nd q w3 s4 = (Inr rr, w5, s5) \<longrightarrow>
         search_thread (Suc k) nd w s =
           (case merge rr s5 of
              Inl f \<Rightarrow> Some (Inl f)
            | Inr s6 \<Rightarrow> search_thread k nd w5 s6) \<and>
         merge rr s5 =
           (case merge rr (s5\<lparr>m_cur_status := searching\<rparr>) of
              Inl f \<Rightarrow> Inl f
            | Inr s6 \<Rightarrow> Inr (s6\<lparr>m_cur_status := m_cur_status s5\<rparr>))))"
proof -
  have "merge rr s5 =
      (case merge rr (s5\<lparr>m_cur_status := searching\<rparr>) of
         Inl f \<Rightarrow> Inl f
       | Inr s6 \<Rightarrow> Inr (s6\<lparr>m_cur_status := m_cur_status s5\<rparr>))"
    using merge_ignores_status
      [where rr = rr and s = "s5\<lparr>m_cur_status := searching\<rparr>" and st = "m_cur_status s5"]
    by simp
  then show ?thesis
    by (auto simp: returns_at_loop_head returns_when_done_after_admit
        merges_whatever_status simp del: search_thread.simps)
qed


theorem status_is_read_at_loop_head_and_after_admit_witness:
  "m_cur_status ((start [\<lparr>host_id = 3, host_ep = 0 :: nat\<rparr>] (new_kad_search 0 8 2 1))
      \<lparr>m_cur_status := cancelled\<rparr>) \<noteq> searching \<and>
   search_thread (Suc 0) (still_node (answer 9) (answer ()) (answer [])) ()
      ((start [\<lparr>host_id = 3, host_ep = 0 :: nat\<rparr>] (new_kad_search 0 8 2 1))
         \<lparr>m_cur_status := cancelled\<rparr>)
     = Some (Inr ((), (start [\<lparr>host_id = 3, host_ep = 0\<rparr>] (new_kad_search 0 8 2 1))
         \<lparr>m_cur_status := cancelled\<rparr>)) \<and>
   loop_cond (start [\<lparr>host_id = 3, host_ep = 0 :: nat\<rparr>] (new_kad_search 0 8 2 1)) \<and>
   take_next (start [\<lparr>host_id = 3, host_ep = 0 :: nat\<rparr>] (new_kad_search 0 8 2 1))
     = Some (11, 0, start [] (new_kad_search 0 8 2 1)) \<and>
   connect_to (overtaken_node 9) (0 :: nat) () (start [] (new_kad_search 0 8 2 1))
     = (Inr 9, (), (start [] (new_kad_search 0 8 2 1))\<lparr>m_cur_status := done_status\<rparr>) \<and>
   filter_id (overtaken_node 9) 9 ()
       ((start [] (new_kad_search 0 8 2 1) :: nat kad_search)\<lparr>m_cur_status := done_status\<rparr>)
     = (Inr (), (), (start [] (new_kad_search 0 8 2 1))\<lparr>m_cur_status := done_status\<rparr>) \<and>
   search_thread (Suc 0) (overtaken_node 9) ()
       (start [\<lparr>host_id = 3, host_ep = 0 :: nat\<rparr>] (new_kad_search 0 8 2 1))
     = Some (Inr ((), \<lparr>m_n = 2, m_p = 1, m_target = 8, m_target_dist = 8,
                        m_cur_status = done_status, m_search_queue = [],
                        m_current_results = [(1, 9)], m_pending = [0]\<rparr>)) \<and>
   visited 9 (start [] (new_kad_search 0 8 2 1) :: nat kad_search)
     = Inr (admit 9 (start [] (new_kad_search 0 8 2 1)),
            Some \<lparr>q_node = 9, q_target = 8, q_n = 2, q_limit = None\<rparr>) \<and>
   remote_nodes_near (cancelling_node 9 [\<lparr>host_id = 5, host_ep = 1 :: nat\<rparr>])
       \<lparr>q_node = 9, q_target = 8, q_n = 2, q_limit = None\<rparr> ()
       (admit 9 (start [] (new_kad_search 0 8 2 1)))
     = (Inr [\<lparr>host_id = 5, host_ep = 1\<rparr>], (),
        (admit 9 (start [] (new_kad_search 0 8 2 1)))\<lparr>m_cur_status := cancelled\<rparr>) \<and>
   search_thread (Suc (Suc 0)) (cancelling_node 9 [\<lparr>host_id = 5, host_ep = 1 :: nat\<rparr>]) ()
       (start [\<lparr>host_id = 3, host_ep = 0\<rparr>] (new_kad_search 0 8 2 1))
     = search_thread (Suc 0) (cancelling_node 9 [\<lparr>host_id = 5, host_ep = 1\<rparr>]) ()
         \<lparr>m_n = 2, m_p = 1, m_target = 8, m_target_dist = 8,
          m_cur_status = cancelled, m_search_queue = [(5, 1)],
          m_current_results = [(1, 9)], m_pending = [0]\<rparr>"
  using status_is_read_at_loop_head_and_after_admit
    [where s = "(start [\<lparr>host_id = 3, host_ep = 0 :: nat\<rparr>] (new_kad_search 0 8 2 1))
                  \<lparr>m_cur_status := cancelled\<rparr>"
       and k = 0 and nd = "still_node (answer 9) (answer ()) (answer [])" and w = "()"
       and nid = 11 and ep = 0 and ?s1.0 = "start [] (new_kad_search 0 8 2 1)"
       and rtn = 9 and ?w2.0 = "()" and ?s2.0 = "start [] (new_kad_search 0 8 2 1)"
       and u = "()" and ?w3.0 = "()" and ?s3.0 = "start [] (new_kad_search 0 8 2 1)"
       and ?s4.0 = "start [] (new_kad_search 0 8 2 1)"
       and q = "\<lparr>q_node = 9, q_target = 8, q_n = 2, q_limit = None\<rparr>"
       and rr = "[]" and ?w5.0 = "()" and ?s5.0 = "start [] (new_kad_search 0 8 2 1)"]
    status_is_read_at_loop_head_and_after_admit
    [where s = "start [\<lparr>host_id = 3, host_ep = 0 :: nat\<rparr>] (new_kad_search 0 8 2 1)"
       and k = 0 and nd = "overtaken_node 9" and w = "()"
       and nid = 11 and ep = 0 and ?s1.0 = "start [] (new_kad_search 0 8 2 1)"
       and rtn = 9 and ?w2.0 = "()"
       and ?s2.0 = "(start [] (new_kad_search 0 8 2 1))\<lparr>m_cur_status := done_status\<rparr>"
       and u = "()" and ?w3.0 = "()"
       and ?s3.0 = "(start [] (new_kad_search 0 8 2 1))\<lparr>m_cur_status := done_status\<rparr>"
       and ?s4.0 = "start [] (new_kad_search 0 8 2 1)"
       and q = "\<lparr>q_node = 9, q_target = 8, q_n = 2, q_limit = None\<rparr>"
       and rr = "[]" and ?w5.0 = "()" and ?s5.0 = "start [] (new_kad_search 0 8 2 1)"]
    status_is_read_at_loop_head_and_after_admit
    [where s = "start [\<lparr>host_id = 3, host_ep = 0 :: nat\<rparr>] (new_kad_search 0 8 2 1)"
       and k = "Suc 0" and nd = "cancelling_node 9 [\<lparr>host_id = 5, host_ep = 1\<rparr>]" and w = "()"
       and nid = 11 and ep = 0 and ?s1.0 = "start [] (new_kad_search 0 8 2 1)"
       and rtn = 9 and ?w2.0 = "()" and ?s2.0 = "start [] (new_kad_search 0 8 2 1)"
       and u = "()" and ?w3.0 = "()" and ?s3.0 = "start [] (new_kad_search 0 8 2 1)"
       and ?s4.0 = "admit 9 (start [] (new_kad_search 0 8 2 1))"
       and q = "\<lparr>q_node = 9, q_target = 8, q_n = 2, q_limit = None\<rparr>"
       and rr = "[\<lparr>host_id = 5, host_ep = 1\<rparr>]" and ?w5.0 = "()"
       and ?s5.0 = "(admit 9 (start [] (new_kad_search 0 8 2 1)))\<lparr>m_cur_status := cancelled\<rparr>"]
  by (simp add: new_kad_search_def start_def seed_queue_def loop_cond_def take_next_def
      still_node_def overtaken_node_def cancelling_node_def answer_def visited_def admit_def
      current_limit_def offer_def enqueue_def map_find_def)

text \<open>
  C9 as stated fails. The worker visits the candidate at endpoint 1, which resolves to
  9; while it is suspended in the remote query the search is cancelled (second
  equation); resumed, it still stores the answer in the candidate queue, and only then
  leaves at the loop head.
\<close>

theorem merge_after_cancel_counterexample:
  "search_thread (Suc (Suc 0)) (cancelling_node 9 [\<lparr>host_id = 3, host_ep = 0 :: nat\<rparr>]) ()
       (start [\<lparr>host_id = 5, host_ep = 1\<rparr>] (new_kad_search 0 8 2 1))
     = Some (Inr ((), \<lparr>m_n = 2, m_p = 1, m_target = 8, m_target_dist = 8,
                        m_cur_status = cancelled, m_search_queue = [(3, 0)],
                        m_current_results = [(1, 9)], m_pending = [0]\<rparr>)) \<and>
   remote_nodes_near (cancelling_node 9 [\<lparr>host_id = 3, host_ep = 0 :: nat\<rparr>])
       \<lparr>q_node = 9, q_target = 8, q_n = 2, q_limit = None\<rparr> ()
       \<lparr>m_n = 2, m_p = 1, m_target = 8, m_target_dist = 8,
        m_cur_status = searching, m_search_queue = [],
        m_current_results = [(1, 9)], m_pending = [0]\<rparr>
     = (Inr [\<lparr>host_id = 3, host_ep = 0\<rparr>], (),
        \<lparr>m_n = 2, m_p = 1, m_target = 8, m_target_dist = 8,
         m_cur_status = cancelled, m_search_queue = [],
         m_current_results = [(1, 9)], m_pending = [0]\<rparr>)"
  by (simp add: new_kad_search_def start_def seed_queue_def loop_cond_def take_next_def
      cancelling_node_def visited_def admit_def current_limit_def offer_def enqueue_def
      map_find_def)

section \<open>The deadline of \<^verbatim>\<open>wait\<close>\<close>

lemma wait_loop_drop:
  "(\<And>f v. join f v = future_wait_until fs f t v) \<Longrightarrow>
     wait_loop join pending i w = wait_shared fs t (drop i pending) w"
proof (induction join pending i w rule: wait_loop.induct)
  case (1 join pending i w)
  show ?case
  proof (cases "i < length pending")
    case True
    then have d: "drop i pending = pending ! i # drop (i + 1) pending"
      by (simp add: Cons_nth_drop_Suc)
    obtain r w' where j: "future_wait_until fs (pending ! i) t w = (r, w')"
      by (cases "future_wait_until fs (pending ! i) t w")
    show ?thesis
    proof (cases r)
      case (Inl e)
      with True d j "1.prems" show ?thesis
        by (subst wait_loop.simps) simp
    next
      case (Inr u)
      with True j "1.prems" have "wait_loop join pending (i + 1) w' =
          wait_shared fs t (drop (i + 1) pending) w'"
        by (intro "1.IH") simp_all
      with True d j Inr "1.prems" show ?thesis
        by (subst wait_loop.simps) simp
    qed
  next
    case False
    then show ?thesis by (subst wait_loop.simps) simp
  qed
qed

lemma wait_loop_shared:
  "wait_loop (\<lambda>i. future_wait_until fs i t) pending 0 w = wait_shared fs t pending w"
  using wait_loop_drop [of "\<lambda>i. future_wait_until fs i t" fs t pending 0 w] by simp

text \<open>
  C6, amended. With a finite duration \<open>d\<close>, \<^verbatim>\<open>wait\<close> computes the time point
  \<^verbatim>\<open>now() + d\<close> once, before the first join (the 64-bit sum), and every join waits until
  that same time point: one deadline shared by all the joins.
\<close>

theorem wait_shares_one_deadline:
  "d \<noteq> microseconds_max \<longrightarrow>
     wait fs d w s = wait_shared fs (now fs w + d) (m_pending s) w"
  by (simp add: wait_def wait_loop_shared)

theorem wait_shares_one_deadline_witness:
  "(10 :: microseconds) \<noteq> microseconds_max \<and>
   wait (finishing_at two_tasks) 10 0 (start [] (new_kad_search 0 8 1 2) :: nat kad_search)
     = wait_shared (finishing_at two_tasks) 10 [0, 1] 0"
  using wait_shares_one_deadline
    [where d = 10 and fs = "finishing_at two_tasks" and w = 0
       and s = "start [] (new_kad_search 0 8 1 2) :: nat kad_search"]
  by (simp add: microseconds_max_def finishing_at_def later_def new_kad_search_def
      start_def upt_rec)

text \<open>
  C6 as stated fails. Two workers, the first finishing at time 5 and the second at 12,
  and a wait of 10 from time 0: \<^verbatim>\<open>wait\<close> times out at 10 on the second join, whereas with
  a full period for each join the second one, begun at 5, would last until 15 and see
  the task finish at 12.
\<close>

theorem wait_per_task_counterexample:
  "wait (finishing_at two_tasks) 10 0 (start [] (new_kad_search 0 8 1 2) :: nat kad_search)
     = (Inl timeout_error, 10) \<and>
   wait_per_task (finishing_at two_tasks) 10
       (m_pending (start [] (new_kad_search 0 8 1 2) :: nat kad_search)) 0
     = (Inr (), 12)"
  unfolding wait_def wait_loop_shared
  by (simp add: microseconds_max_def finishing_at_def later_def new_kad_search_def start_def
      upt_rec)

section \<open>Merging a remote answer into the queue\<close>












section \<open>Taking the next candidate\<close>


lemma key_ordered_seed_queue: "key_ordered q \<Longrightarrow> key_ordered (seed_queue nn q)"
  unfolding seed_queue_def
  by (induction nn arbitrary: q) (simp_all add: key_ordered_map_put)

lemma queue_ordered_start:
  "key_ordered (m_search_queue s) \<Longrightarrow> key_ordered (m_search_queue (start nn s))"
  by (simp add: start_def key_ordered_seed_queue)

lemma queue_ordered_new: "key_ordered (m_search_queue (new_kad_search l t n p))"
  by (simp add: new_kad_search_def key_ordered_def)

lemma queue_ordered_admit:
  "key_ordered (m_search_queue s) \<Longrightarrow> key_ordered (m_search_queue (admit i s))"
  by simp

lemma queue_ordered_offer:
  "key_ordered (m_search_queue s) \<Longrightarrow> offer h s = Inr s' \<Longrightarrow> key_ordered (m_search_queue s')"
  using offer_result [of h s s'] by (auto simp: enqueue_def key_ordered_map_put)

lemma queue_ordered_merge:
  "key_ordered (m_search_queue s) \<Longrightarrow> merge rr s = Inr s' \<Longrightarrow> key_ordered (m_search_queue s')"
proof (induction rr arbitrary: s)
  case Nil
  then show ?case by simp
next
  case (Cons h rr)
  from Cons.prems(2) obtain s1 where o: "offer h s = Inr s1" and m: "merge rr s1 = Inr s'"
    by (auto split: sum.splits)
  from Cons.IH [OF queue_ordered_offer [OF Cons.prems(1) o] m] show ?case .
qed

lemma queue_ordered_take_next:
  "key_ordered (m_search_queue s) \<Longrightarrow> take_next s = Some (nid, ep, s') \<Longrightarrow>
     key_ordered (m_search_queue s')"
  by (auto simp: take_next_def key_ordered_def split: list.splits)



end
